theory Spec2Isabelle
  imports Main
begin

section \<open>Session Orchestrator (class CodeRunner)\<close>

subsection \<open>Collaborators of the orchestrator\<close>

text \<open>
  The compiled callback table \<^verbatim>\<open>input_devices.callback_registry\<close> is a nested Python
  dictionary \<^verbatim>\<open>hardware_id -> mode -> event -> [callback, ...]\<close>. The loops of
  \<^verbatim>\<open>CodeRunner.start\<close> walk it with \<^verbatim>\<open>.items()\<close>, so the order of the entries
  matters: every level is an association list in iteration order. A callback is a pair, of
  which \<^verbatim>\<open>callback[0]\<close> and \<^verbatim>\<open>callback[1]\<close> are handed to the event handler.
\<close>

type_synonym ('k, 'f, 'g) callback_table =
  "(int \<times> (string \<times> ('k \<times> ('f \<times> 'g) list) list) list) list"

text \<open>
  Modelled from the spec: the Mode-Dispatch Engine (\<^verbatim>\<open>gremlin.event_handler.EventHandler\<close>)
  is not part of the source file. The spec gives it an active mode, a registry that maps
  (device, mode, event-key) to an ordered callback list, \<^verbatim>\<open>register_callback\<close>,
  \<^verbatim>\<open>clear_registry\<close>, \<^verbatim>\<open>set_mode\<close> and \<^verbatim>\<open>resume\<close>. The registry is kept as the list of
  registrations in the order they were made; the ordered callback list of a key is the
  sub-list of the registrations under that key.
\<close>

datatype plugin = JoystickPlugin | VJoyPlugin | KeyboardPlugin

type_synonym ('k, 'f, 'g) registration = "int \<times> string \<times> 'k \<times> 'f \<times> 'g"

record ('k, 'f, 'g) event_handler =
  plugins :: "plugin list"
  callbacks :: "('k, 'f, 'g) registration list"
  active_mode :: string
  previous_mode :: string
  dispatch_active :: bool

definition EventHandler :: "('k, 'f, 'g) event_handler" where
  "EventHandler =
     \<lparr>plugins = [], callbacks = [], active_mode = ''global'', previous_mode = ''global'',
      dispatch_active = False\<rparr>"

definition add_plugin ::
  "plugin \<Rightarrow> ('k, 'f, 'g) event_handler \<Rightarrow> ('k, 'f, 'g) event_handler" where
  "add_plugin p eh = eh\<lparr>plugins := plugins eh @ [p]\<rparr>"

definition add_callback ::
  "int \<Rightarrow> string \<Rightarrow> 'k \<Rightarrow> 'f \<Rightarrow> 'g \<Rightarrow> ('k, 'f, 'g) event_handler \<Rightarrow> ('k, 'f, 'g) event_handler" where
  "add_callback hardware_id mode event c0 c1 eh =
     eh\<lparr>callbacks := callbacks eh @ [(hardware_id, mode, event, c0, c1)]\<rparr>"

definition clear :: "('k, 'f, 'g) event_handler \<Rightarrow> ('k, 'f, 'g) event_handler" where
  "clear eh = eh\<lparr>callbacks := []\<rparr>"

definition change_mode ::
  "string \<Rightarrow> ('k, 'f, 'g) event_handler \<Rightarrow> ('k, 'f, 'g) event_handler" where
  "change_mode new_mode eh = eh\<lparr>active_mode := new_mode\<rparr>"

definition resume :: "('k, 'f, 'g) event_handler \<Rightarrow> ('k, 'f, 'g) event_handler" where
  "resume eh = eh\<lparr>dispatch_active := True\<rparr>"

text \<open>
  The callbacks that fire for a key, in firing order: the registrations made under that
  key, oldest first.
\<close>

definition callbacks_for ::
  "int \<Rightarrow> string \<Rightarrow> 'k \<Rightarrow> ('k, 'f, 'g) event_handler \<Rightarrow> ('f \<times> 'g) list" where
  "callbacks_for hardware_id mode event eh =
     map (\<lambda>(h, m, e, c). c)
       (filter (\<lambda>(h, m, e, c). h = hardware_id \<and> m = mode \<and> e = event) (callbacks eh))"

text \<open>
  Modelled from the spec: the event channel (\<^verbatim>\<open>EventListener\<close> with the signals
  \<^verbatim>\<open>keyboard_event\<close> and \<^verbatim>\<open>joystick_event\<close>) is not part of the source file. A signal is
  the list of the handlers connected to it; \<^verbatim>\<open>connect\<close> adds a connection and
  \<^verbatim>\<open>disconnect\<close> removes one connection of the handler.
\<close>

datatype handler = Process_event | Kb_keyboard_event

definition connect :: "handler \<Rightarrow> handler list \<Rightarrow> handler list" where
  "connect h signal = signal @ [h]"

definition disconnect :: "handler \<Rightarrow> handler list \<Rightarrow> handler list" where
  "disconnect h signal = remove1 h signal"

text \<open>
  Modelled from the spec: the compiled-binding loader (the generated module
  \<^verbatim>\<open>gremlin_code\<close>, whose import fills \<^verbatim>\<open>input_devices.callback_registry\<close>) is not part
  of the source file. The spec describes it as a fallible \<^verbatim>\<open>load_bindings() -> Table | LoadError\<close>.
  The outcome of the two statements \<^verbatim>\<open>import gremlin_code\<close> and
  \<^verbatim>\<open>importlib.reload(gremlin_code)\<close> is a parameter of \<open>start\<close>: either an
  \<^verbatim>\<open>ImportError\<close> with its message, or the table found in the registry afterwards.
\<close>

datatype ('k, 'f, 'g) load_result =
  ImportError string
  | Loaded "('k, 'f, 'g) callback_table"

subsection \<open>The orchestrator\<close>

text \<open>
  The state that \<^verbatim>\<open>CodeRunner\<close> reads and writes: its own two attributes, the module
  global \<^verbatim>\<open>input_devices.callback_registry\<close>, the connections of the two signals, and the
  messages passed to \<^verbatim>\<open>util.display_error\<close>.
\<close>

record ('k, 'f, 'g) code_runner =
  event_handler :: "('k, 'f, 'g) event_handler"
  running :: bool
  callback_registry :: "('k, 'f, 'g) callback_table"
  keyboard_event :: "handler list"
  joystick_event :: "handler list"
  displayed_errors :: "string list"

definition CodeRunner :: "('k, 'f, 'g) code_runner" where
  "CodeRunner =
     \<lparr>event_handler =
        add_plugin KeyboardPlugin (add_plugin VJoyPlugin (add_plugin JoystickPlugin EventHandler)),
      running = False,
      callback_registry = [],
      keyboard_event = [],
      joystick_event = [],
      displayed_errors = []\<rparr>"

definition reset_state :: "('k, 'f, 'g) code_runner \<Rightarrow> ('k, 'f, 'g) code_runner" where
  "reset_state s =
     s\<lparr>event_handler := (event_handler s)\<lparr>active_mode := ''global'', previous_mode := ''global''\<rparr>\<rparr>"

text \<open>
  The four nested \<^verbatim>\<open>for\<close> loops of \<^verbatim>\<open>start\<close>, innermost first. The counter
  \<^verbatim>\<open>callback_count\<close> is a local that is never read and is left out.
\<close>

definition add_callback_list ::
  "int \<Rightarrow> string \<Rightarrow> 'k \<Rightarrow> ('f \<times> 'g) list \<Rightarrow> ('k, 'f, 'g) event_handler \<Rightarrow> ('k, 'f, 'g) event_handler" where
  "add_callback_list hardware_id mode event callback_list eh =
     fold (\<lambda>callback. add_callback hardware_id mode event (fst callback) (snd callback))
       callback_list eh"

definition add_event_callbacks ::
  "int \<Rightarrow> string \<Rightarrow> ('k \<times> ('f \<times> 'g) list) list \<Rightarrow> ('k, 'f, 'g) event_handler \<Rightarrow> ('k, 'f, 'g) event_handler" where
  "add_event_callbacks hardware_id mode cbs eh =
     fold (\<lambda>(event, callback_list). add_callback_list hardware_id mode event callback_list) cbs eh"

definition add_mode_callbacks ::
  "int \<Rightarrow> (string \<times> ('k \<times> ('f \<times> 'g) list) list) list \<Rightarrow> ('k, 'f, 'g) event_handler \<Rightarrow> ('k, 'f, 'g) event_handler" where
  "add_mode_callbacks hardware_id modes eh =
     fold (\<lambda>(mode, cbs). add_event_callbacks hardware_id mode cbs) modes eh"

definition create_callbacks ::
  "('k, 'f, 'g) callback_table \<Rightarrow> ('k, 'f, 'g) event_handler \<Rightarrow> ('k, 'f, 'g) event_handler" where
  "create_callbacks table eh =
     fold (\<lambda>(hardware_id, modes). add_mode_callbacks hardware_id modes) table eh"

definition error_message :: "string \<Rightarrow> string" where
  "error_message e = ''Unable to launch due to missing custom modules: '' @ e"

definition start ::
  "('k, 'f, 'g) load_result \<Rightarrow> ('k, 'f, 'g) code_runner \<Rightarrow> ('k, 'f, 'g) code_runner" where
  "start load s =
     (let s1 = reset_state s in
      case load of
        ImportError e \<Rightarrow> s1\<lparr>displayed_errors := displayed_errors s1 @ [error_message e]\<rparr>
      | Loaded table \<Rightarrow>
          (let s2 = s1\<lparr>callback_registry := table\<rparr>;
               s3 = s2\<lparr>event_handler := create_callbacks table (event_handler s2)\<rparr>;
               s4 = s3\<lparr>keyboard_event := connect Process_event (keyboard_event s3)\<rparr>;
               s5 = s4\<lparr>joystick_event := connect Process_event (joystick_event s4)\<rparr>;
               s6 = s5\<lparr>keyboard_event := connect Kb_keyboard_event (keyboard_event s5)\<rparr>;
               s7 = s6\<lparr>event_handler := change_mode ''global'' (event_handler s6)\<rparr>;
               s8 = s7\<lparr>event_handler := resume (event_handler s7)\<rparr>
           in s8\<lparr>running := True\<rparr>))"

definition stop :: "('k, 'f, 'g) code_runner \<Rightarrow> ('k, 'f, 'g) code_runner" where
  "stop s =
     (let s1 =
            (if running s then
               (let a = s\<lparr>keyboard_event := disconnect Process_event (keyboard_event s)\<rparr>;
                    b = a\<lparr>joystick_event := disconnect Process_event (joystick_event a)\<rparr>
                in b\<lparr>keyboard_event := disconnect Kb_keyboard_event (keyboard_event b)\<rparr>)
             else s);
          s2 = s1\<lparr>callback_registry := []\<rparr>
      in s2\<lparr>event_handler := clear (event_handler s2)\<rparr>)"

text \<open>
  The states an orchestrator can be in: it is constructed, and then start() and stop() are
  called in any order, each start() with whatever the loader yields at that moment.
\<close>

inductive session_reachable :: "('k, 'f, 'g) code_runner \<Rightarrow> bool" where
  session_init: "session_reachable CodeRunner"
| session_start: "session_reachable s \<Longrightarrow> session_reachable (start load s)"
| session_stop: "session_reachable s \<Longrightarrow> session_reachable (stop s)"

text \<open>The registrations a table gives rise to, in the order of the loops.\<close>

definition registration_of ::
  "int \<Rightarrow> string \<Rightarrow> 'k \<Rightarrow> 'f \<times> 'g \<Rightarrow> ('k, 'f, 'g) registration" where
  "registration_of hardware_id mode event callback =
     (hardware_id, mode, event, fst callback, snd callback)"

definition table_registrations ::
  "('k, 'f, 'g) callback_table \<Rightarrow> ('k, 'f, 'g) registration list" where
  "table_registrations table =
     concat (map (\<lambda>(hardware_id, modes).
       concat (map (\<lambda>(mode, cbs).
         concat (map (\<lambda>(event, callback_list).
           map (registration_of hardware_id mode event) callback_list)
         cbs)) modes)) table)"

text \<open>A Python dictionary has each key once.\<close>

definition is_dict :: "('a \<times> 'b) list \<Rightarrow> bool" where
  "is_dict d \<longleftrightarrow> distinct (map fst d)"

text \<open>The registrations made under one key.\<close>

definition has_key :: "int \<Rightarrow> string \<Rightarrow> 'k \<Rightarrow> ('k, 'f, 'g) registration \<Rightarrow> bool" where
  "has_key h m e = (\<lambda>(h', m', e', c). h' = h \<and> m' = m \<and> e' = e)"

section \<open>Replay Engine (class Repeater)\<close>

subsection \<open>Events, timers and threads\<close>

text \<open>
  Modelled from the spec: the \<^verbatim>\<open>Event\<close> class and \<^verbatim>\<open>InputType\<close> are imported by the
  source file, not defined in it. The spec gives an event a hardware id, an event type, an
  identifier and a payload that depends on the type; the Replay Engine reads the event type
  only.
\<close>

datatype input_type = Keyboard | JoystickAxis | JoystickButton | JoystickHat

record 'p event =
  hardware_id :: int
  event_type :: input_type
  event_identifier :: int
  payload :: 'p

datatype signal = Keyboard_event | Joystick_event

datatype error = IndexError | ZeroDivisionError

text \<open>
  A \<^verbatim>\<open>threading.Timer(interval, function)\<close>: its interval in milliseconds (the source
  gives seconds: 1.0 is 1000, 5.0 is 5000), the method it calls, whether \<^verbatim>\<open>start()\<close> was
  called, and its \<^verbatim>\<open>finished\<close> flag, which \<^verbatim>\<open>cancel()\<close> sets and which the timer sets
  itself once it has fired. A timer is pending when it was started and is not finished.
\<close>

datatype timer_function = Run | Stop

record timer =
  interval :: nat
  target :: timer_function
  timer_started :: bool
  finished :: bool

definition Timer :: "nat \<Rightarrow> timer_function \<Rightarrow> timer" where
  "Timer ms f = \<lparr>interval = ms, target = f, timer_started = False, finished = False\<rparr>"

text \<open>
  A \<^verbatim>\<open>threading.Thread(target=self.emit_events)\<close>: whether it was started, whether its
  target has returned or raised, the local variable \<^verbatim>\<open>index\<close> of \<^verbatim>\<open>emit_events\<close>, and
  the exception that ended it, if one did.
\<close>

record worker =
  worker_started :: bool
  worker_finished :: bool
  index :: nat
  fault :: "error option"

definition Thread :: worker where
  "Thread = \<lparr>worker_started = False, worker_finished = False, index = 0, fault = None\<rparr>"

text \<open>
  The attributes of a \<^verbatim>\<open>Repeater\<close>. The attributes \<^verbatim>\<open>_thread\<close>, \<^verbatim>\<open>_start_timer\<close> and
  \<^verbatim>\<open>_stop_timer\<close> are references: the objects they point to live in \<open>threads\<close> and
  \<open>timers\<close>, which hold every thread and timer object created so far, so that a timer that
  is no longer referenced can still fire. \<open>emitted\<close> is the sequence of events emitted on the
  signals of the event channel.
\<close>

record 'p repeater =
  is_running :: bool
  events :: "'p event list"
  thread :: nat
  start_timer :: nat
  stop_timer :: nat
  timers :: "timer list"
  threads :: "worker list"
  emitted :: "(signal \<times> 'p event) list"

definition Repeater :: "'p event list \<Rightarrow> 'p repeater" where
  "Repeater evs =
     \<lparr>is_running = False,
      events = evs,
      thread = 0,
      start_timer = 0,
      stop_timer = 1,
      timers = [Timer 1000 Run, Timer 5000 Stop],
      threads = [Thread],
      emitted = []\<rparr>"

text \<open>Line 439 of the source: the application creates its replay engine.\<close>

definition GremlinUi_repeater :: "'p repeater" where
  "GremlinUi_repeater = Repeater []"

definition cancel :: "nat \<Rightarrow> 'p repeater \<Rightarrow> 'p repeater" where
  "cancel i s = s\<lparr>timers := (timers s)[i := (timers s ! i)\<lparr>finished := True\<rparr>]\<rparr>"

definition timer_start :: "nat \<Rightarrow> 'p repeater \<Rightarrow> 'p repeater" where
  "timer_start i s = s\<lparr>timers := (timers s)[i := (timers s ! i)\<lparr>timer_started := True\<rparr>]\<rparr>"

definition thread_start :: "nat \<Rightarrow> 'p repeater \<Rightarrow> 'p repeater" where
  "thread_start w s = s\<lparr>threads := (threads s)[w := (threads s ! w)\<lparr>worker_started := True\<rparr>]\<rparr>"

definition pending :: "nat \<Rightarrow> 'p repeater \<Rightarrow> bool" where
  "pending i s \<longleftrightarrow>
     i < length (timers s) \<and> timer_started (timers s ! i) \<and> \<not> finished (timers s ! i)"

definition is_alive :: "nat \<Rightarrow> 'p repeater \<Rightarrow> bool" where
  "is_alive w s \<longleftrightarrow>
     w < length (threads s) \<and> worker_started (threads s ! w) \<and> \<not> worker_finished (threads s ! w)"

subsection \<open>The methods\<close>

text \<open>
  The setter of the property \<^verbatim>\<open>events\<close>. The test \<^verbatim>\<open>if self._start_timer\<close> is on a
  timer object, which is always true.
\<close>

definition set_events :: "'p event list \<Rightarrow> 'p repeater \<Rightarrow> 'p repeater" where
  "set_events evs s =
     (if is_running s \<or> length evs = 0 then s
      else
        (let s1 = s\<lparr>events := evs\<rparr>;
             s2 = cancel (start_timer s1) s1;
             s3 = s2\<lparr>timers := timers s2 @ [Timer 1000 Run], start_timer := length (timers s2)\<rparr>
         in timer_start (start_timer s3) s3))"

definition repeater_stop :: "'p repeater \<Rightarrow> 'p repeater" where
  "repeater_stop s = s\<lparr>is_running := False\<rparr>"

definition run :: "'p repeater \<Rightarrow> 'p repeater" where
  "run s =
     (if is_alive (thread s) s then s
      else
        (let s1 = s\<lparr>is_running := True\<rparr>;
             s2 = s1\<lparr>timers := timers s1 @ [Timer 5000 Stop], stop_timer := length (timers s1)\<rparr>;
             s3 = timer_start (stop_timer s2) s2;
             s4 = s3\<lparr>threads := threads s3 @ [Thread], thread := length (threads s3)\<rparr>
         in thread_start (thread s4) s4))"

text \<open>
  The body of the \<^verbatim>\<open>while\<close> loop of \<^verbatim>\<open>emit_events\<close> at cursor \<open>idx\<close>: the new cursor
  and state, or the exception the body raises. \<^verbatim>\<open>self.events[0]\<close> and
  \<^verbatim>\<open>self._events[index]\<close> raise \<^verbatim>\<open>IndexError\<close> out of range, and \<^verbatim>\<open>%\<close> raises
  \<^verbatim>\<open>ZeroDivisionError\<close> on a zero divisor. \<^verbatim>\<open>time.sleep(0.5)\<close> changes no state.
\<close>

definition emit_body :: "nat \<Rightarrow> 'p repeater \<Rightarrow> error + (nat \<times> 'p repeater)" where
  "emit_body idx s =
     (if length (events s) \<le> 0 then Inl IndexError
      else
        (let sig = (if event_type (events s ! 0) = Keyboard then Keyboard_event else Joystick_event)
         in if length (events s) \<le> idx then Inl IndexError
            else
              (let s1 = s\<lparr>emitted := emitted s @ [(sig, events s ! idx)]\<rparr>
               in if length (events s1) = 0 then Inl ZeroDivisionError
                  else Inr ((idx + 1) mod length (events s1), s1))))"

text \<open>
  One trip of worker thread \<open>w\<close> round the loop of \<^verbatim>\<open>emit_events\<close>, as one atomic step:
  the test of \<^verbatim>\<open>self.is_running\<close>, then the body, or the return when the flag is clear.
  An exception ends the thread. A thread that is not alive does nothing.
\<close>

definition emit_events_step :: "nat \<Rightarrow> 'p repeater \<Rightarrow> 'p repeater" where
  "emit_events_step w s =
     (if \<not> is_alive w s then s
      else if is_running s then
        (case emit_body (index (threads s ! w)) s of
           Inl e \<Rightarrow>
             s\<lparr>threads := (threads s)[w := (threads s ! w)\<lparr>worker_finished := True, fault := Some e\<rparr>]\<rparr>
         | Inr (idx, s1) \<Rightarrow>
             s1\<lparr>threads := (threads s1)[w := (threads s1 ! w)\<lparr>index := idx\<rparr>]\<rparr>)
      else s\<lparr>threads := (threads s)[w := (threads s ! w)\<lparr>worker_finished := True\<rparr>]\<rparr>)"

text \<open>The first \<open>n\<close> trips of worker thread \<open>w\<close> round the loop, with no other thread in between.\<close>

primrec emit_events :: "nat \<Rightarrow> nat \<Rightarrow> 'p repeater \<Rightarrow> 'p repeater" where
  "emit_events 0 w s = s"
| "emit_events (Suc n) w s = emit_events n w (emit_events_step w s)"

text \<open>
  Timer \<open>i\<close> reaches the end of its interval: a pending timer calls its function and sets
  its \<^verbatim>\<open>finished\<close> flag; a timer that was cancelled or never started does nothing.
\<close>

definition fire :: "nat \<Rightarrow> 'p repeater \<Rightarrow> 'p repeater" where
  "fire i s =
     (if pending i s then
        (let s1 = (case target (timers s ! i) of Run \<Rightarrow> run s | Stop \<Rightarrow> repeater_stop s)
         in cancel i s1)
      else s)"

text \<open>
  The states a replay engine can be in: it is constructed, and then its methods are called,
  its timers fire and its worker threads step, in any order, each as one atomic step.
\<close>

inductive reachable :: "'p repeater \<Rightarrow> bool" where
  reachable_init: "reachable (Repeater evs)"
| reachable_set_events: "reachable s \<Longrightarrow> reachable (set_events evs s)"
| reachable_stop: "reachable s \<Longrightarrow> reachable (repeater_stop s)"
| reachable_run: "reachable s \<Longrightarrow> reachable (run s)"
| reachable_fire: "reachable s \<Longrightarrow> reachable (fire i s)"
| reachable_step: "reachable s \<Longrightarrow> reachable (emit_events_step w s)"

definition active_workers :: "'p repeater \<Rightarrow> nat" where
  "active_workers s =
     length (filter (\<lambda>t. worker_started t \<and> \<not> worker_finished t) (threads s))"

text \<open>
  The invariant behind the single worker: a thread that is alive is the one that
  \<^verbatim>\<open>self._thread\<close> refers to.
\<close>

definition one_worker :: "'p repeater \<Rightarrow> bool" where
  "one_worker s \<longleftrightarrow> (\<forall>w. is_alive w s \<longrightarrow> w = thread s)"

text \<open>
  The invariant behind the single debounce timer: \<^verbatim>\<open>self._start_timer\<close> refers to a timer,
  and a pending timer that calls run() is that one.
\<close>

definition one_debounce :: "'p repeater \<Rightarrow> bool" where
  "one_debounce s \<longleftrightarrow>
     start_timer s < length (timers s)
     \<and> (\<forall>i. pending i s \<and> target (timers s ! i) = Run \<longrightarrow> i = start_timer s)"

text \<open>
  The list that \<^verbatim>\<open>_handle_input_repeat\<close> builds for a button: two clones of the event,
  the first released, the second pressed.
\<close>

definition release_event :: "bool event" where
  "release_event =
     \<lparr>hardware_id = 1, event_type = JoystickButton, event_identifier = 3, payload = False\<rparr>"

definition press_event :: "bool event" where
  "press_event =
     \<lparr>hardware_id = 1, event_type = JoystickButton, event_identifier = 3, payload = True\<rparr>"

section \<open>Properties of the Session Orchestrator\<close>

subsection \<open>What the loops of start register\<close>

lemma add_callback_list_eq:
  "add_callback_list h m e cl eh =
     eh\<lparr>callbacks := callbacks eh @ map (registration_of h m e) cl\<rparr>"
  unfolding add_callback_list_def
  by (induction cl arbitrary: eh) (simp_all add: add_callback_def registration_of_def)

lemma add_event_callbacks_eq:
  "add_event_callbacks h m cbs eh =
     eh\<lparr>callbacks := callbacks eh @
        concat (map (\<lambda>(e, cl). map (registration_of h m e) cl) cbs)\<rparr>"
  unfolding add_event_callbacks_def
  by (induction cbs arbitrary: eh) (simp_all add: add_callback_list_eq split: prod.splits)

lemma add_mode_callbacks_eq:
  "add_mode_callbacks h modes eh =
     eh\<lparr>callbacks := callbacks eh @
        concat (map (\<lambda>(m, cbs).
          concat (map (\<lambda>(e, cl). map (registration_of h m e) cl) cbs)) modes)\<rparr>"
  unfolding add_mode_callbacks_def
  by (induction modes arbitrary: eh) (simp_all add: add_event_callbacks_eq split: prod.splits)

lemma create_callbacks_eq:
  "create_callbacks t eh = eh\<lparr>callbacks := callbacks eh @ table_registrations t\<rparr>"
  unfolding create_callbacks_def table_registrations_def
  by (induction t arbitrary: eh) (simp_all add: add_mode_callbacks_eq split: prod.splits)

lemma start_loaded_callbacks:
  "callbacks (event_handler (start (Loaded t) s)) = callbacks (event_handler s) @ table_registrations t"
  by (simp add: start_def Let_def reset_state_def create_callbacks_eq change_mode_def resume_def)

lemma concat_other_keys:
  "\<forall>(k', v') \<in> set xs. g k' v' = [] \<Longrightarrow> concat (map (\<lambda>(k', v'). g k' v') xs) = []"
  by (induction xs) auto

lemma concat_dict_lookup:
  assumes "distinct (map fst xs)" and "map_of xs k = Some v"
    and "\<And>k' v'. k' \<noteq> k \<Longrightarrow> g k' v' = []"
  shows "concat (map (\<lambda>(k', v'). g k' v') xs) = g k v"
  using assms(1,2)
proof (induction xs)
  case Nil
  then show ?case by simp
next
  case (Cons x xs)
  obtain k0 v0 where x: "x = (k0, v0)" by (cases x)
  show ?case
  proof (cases "k0 = k")
    case True
    with Cons.prems x have v: "v0 = v" by simp
    from Cons.prems x True have "k \<notin> fst ` set xs" by simp
    then have "\<forall>(k', v') \<in> set xs. g k' v' = []"
      using assms(3) by (auto simp: image_iff) 
    then have "concat (map (\<lambda>(k', v'). g k' v') xs) = []" by (rule concat_other_keys)
    with x True v show ?thesis by simp
  next
    case False
    with Cons x assms(3) show ?thesis by simp
  qed
qed

lemma has_key_registration_of:
  "has_key h m e (registration_of h0 m0 e0 c) \<longleftrightarrow> h0 = h \<and> m0 = m \<and> e0 = e"
  by (simp add: has_key_def registration_of_def)

lemma filter_callback_list:
  "filter (has_key h m e) (map (registration_of h0 m0 e0) cl) =
     (if h0 = h \<and> m0 = m \<and> e0 = e then map (registration_of h0 m0 e0) cl else [])"
  by (induction cl) (simp_all add: has_key_registration_of)

lemma filter_event_callbacks:
  "filter (has_key h m e) (concat (map (\<lambda>(e', cl). map (registration_of h0 m0 e') cl) cbs)) =
     concat (map (\<lambda>(e', cl).
       if h0 = h \<and> m0 = m \<and> e' = e then map (registration_of h0 m0 e') cl else []) cbs)"
proof (induction cbs)
  case Nil
  show ?case by simp
next
  case (Cons x cbs)
  obtain e0 cl0 where "x = (e0, cl0)" by (cases x)
  with Cons show ?case by (simp add: filter_callback_list)
qed

lemma filter_mode_callbacks:
  "filter (has_key h m e)
      (concat (map (\<lambda>(m', cbs).
         concat (map (\<lambda>(e', cl). map (registration_of h0 m' e') cl) cbs)) modes)) =
     concat (map (\<lambda>(m', cbs). concat (map (\<lambda>(e', cl).
       if h0 = h \<and> m' = m \<and> e' = e then map (registration_of h0 m' e') cl else []) cbs)) modes)"
proof (induction modes)
  case Nil
  show ?case by simp
next
  case (Cons x modes)
  obtain m0 cbs0 where "x = (m0, cbs0)" by (cases x)
  with Cons show ?case by (simp add: filter_event_callbacks)
qed

lemma filter_table_registrations:
  "filter (has_key h m e) (table_registrations t) =
     concat (map (\<lambda>(h', modes).
       concat (map (\<lambda>(m', cbs).
         concat (map (\<lambda>(e', cl).
           if h' = h \<and> m' = m \<and> e' = e then map (registration_of h' m' e') cl else [])
         cbs)) modes)) t)"
  unfolding table_registrations_def
proof (induction t)
  case Nil
  show ?case by simp
next
  case (Cons x t)
  obtain h0 modes0 where "x = (h0, modes0)" by (cases x)
  with Cons show ?case by (simp add: filter_mode_callbacks)
qed

lemma table_entry_registrations:
  fixes t :: "('k, 'f, 'g) callback_table"
  assumes "is_dict t" "map_of t h = Some modes"
    and "is_dict modes" "map_of modes m = Some cbs"
    and "is_dict cbs" "map_of cbs e = Some cl"
  shows "filter (has_key h m e) (table_registrations t) = map (registration_of h m e) cl"
proof -
  define g3 :: "int \<Rightarrow> string \<Rightarrow> 'k \<Rightarrow> ('f \<times> 'g) list \<Rightarrow> ('k, 'f, 'g) registration list" where "g3 = (\<lambda>h' m' e' cl'.
     if h' = h \<and> m' = m \<and> e' = e then map (registration_of h' m' e') cl' else [])"
  define g2 where "g2 = (\<lambda>h' m' cbs'. concat (map (\<lambda>(e', cl'). g3 h' m' e' cl') cbs'))"
  define g1 where "g1 = (\<lambda>h' modes'. concat (map (\<lambda>(m', cbs'). g2 h' m' cbs') modes'))"
  have o3: "g3 h' m' e' cl' = []" if "h' \<noteq> h \<or> m' \<noteq> m \<or> e' \<noteq> e" for h' m' e' cl'
    using that by (auto simp: g3_def)
  have o2: "g2 h' m' cbs' = []" if "h' \<noteq> h \<or> m' \<noteq> m" for h' m' cbs'
    unfolding g2_def by (rule concat_other_keys) (use that o3 in auto)
  have o1: "g1 h' modes' = []" if "h' \<noteq> h" for h' modes'
    unfolding g1_def by (rule concat_other_keys) (use that o2 in auto)
  have "g2 h m cbs = g3 h m e cl"
    unfolding g2_def
    by (rule concat_dict_lookup) (use assms(5,6) o3 in \<open>auto simp: is_dict_def\<close>)
  moreover have "g1 h modes = g2 h m cbs"
    unfolding g1_def
    by (rule concat_dict_lookup) (use assms(3,4) o2 in \<open>auto simp: is_dict_def\<close>)
  moreover have "concat (map (\<lambda>(h', modes'). g1 h' modes') t) = g1 h modes"
    by (rule concat_dict_lookup) (use assms(1,2) o1 in \<open>auto simp: is_dict_def\<close>)
  moreover have "g3 h m e cl = map (registration_of h m e) cl"
    by (simp add: g3_def)
  moreover have "filter (has_key h m e) (table_registrations t) =
      concat (map (\<lambda>(h', modes'). g1 h' modes') t)"
    by (simp add: filter_table_registrations g1_def g2_def g3_def)
  ultimately show ?thesis by simp
qed

lemma callbacks_for_filter:
  "callbacks_for h m e eh = map (\<lambda>r. snd (snd (snd r))) (filter (has_key h m e) (callbacks eh))"
  unfolding callbacks_for_def has_key_def
  by (rule arg_cong2 [where f = map]) (auto simp: fun_eq_iff)

lemma start_loaded_running: "running (start (Loaded t) s)"
  by (simp add: start_def Let_def)

lemma start_loaded_keyboard:
  "keyboard_event (start (Loaded t) s) = keyboard_event s @ [Process_event, Kb_keyboard_event]"
  by (simp add: start_def Let_def reset_state_def connect_def)

lemma start_loaded_joystick:
  "joystick_event (start (Loaded t) s) = joystick_event s @ [Process_event]"
  by (simp add: start_def Let_def reset_state_def connect_def)

lemma stop_not_running:
  "\<not> running s \<Longrightarrow>
     stop s = s\<lparr>callback_registry := [], event_handler := (event_handler s)\<lparr>callbacks := []\<rparr>\<rparr>"
  by (simp add: stop_def Let_def clear_def)

subsection \<open>Start followed by stop\<close>

text \<open>
  Claim C1. The session should have callbacks registered exactly when its running flag is
  true, and a stop() after a successful start() should leave the registry empty, both
  subscriptions removed and the running flag false. \<^verbatim>\<open>CodeRunner.stop\<close> never assigns
  \<^verbatim>\<open>_running\<close>: on a new orchestrator, after a start() that loads a table with one callback
  and a stop(), the registry is empty and the subscriptions are gone, but the running flag is
  still true.
\<close>

theorem stop_after_start_leaves_running_set:
  "running (stop (start (Loaded [(1, [(''global'', [(3::nat, [(0::nat, 0::nat)])])])]) CodeRunner))
   \<and> callbacks (event_handler
        (stop (start (Loaded [(1, [(''global'', [(3::nat, [(0::nat, 0::nat)])])])]) CodeRunner))) = []
   \<and> keyboard_event
        (stop (start (Loaded [(1, [(''global'', [(3::nat, [(0::nat, 0::nat)])])])]) CodeRunner)) = []
   \<and> joystick_event
        (stop (start (Loaded [(1, [(''global'', [(3::nat, [(0::nat, 0::nat)])])])]) CodeRunner)) = []"
  by (simp add: stop_def start_def Let_def CodeRunner_def reset_state_def connect_def
      disconnect_def clear_def)

subsection \<open>Start called twice\<close>

text \<open>
  Claim C2, as amended. \<^verbatim>\<open>CodeRunner.start\<close> has no guard on the running flag: a second
  start() without a stop() in between runs the whole sequence again, so the registry then
  holds the registrations of the first load followed by those of the second.
\<close>

theorem second_start_registers_again:
  "callbacks (event_handler (start (Loaded t2) (start (Loaded t1) s))) =
     callbacks (event_handler s) @ table_registrations t1 @ table_registrations t2"
  by (simp add: start_loaded_callbacks)

text \<open>
  The claim as stated fails: with a table of one callback loaded both times, the registry
  after the second start() differs from the registry after the first, and the callback is
  there twice.
\<close>

theorem second_start_not_guarded_counterexample:
  "callbacks (event_handler
      (start (Loaded [(1, [(''global'', [(3::nat, [(0::nat, 0::nat)])])])])
        (start (Loaded [(1, [(''global'', [(3::nat, [(0::nat, 0::nat)])])])]) CodeRunner)))
   \<noteq> callbacks (event_handler
      (start (Loaded [(1, [(''global'', [(3::nat, [(0::nat, 0::nat)])])])]) CodeRunner))
   \<and> callbacks_for 1 ''global'' 3 (event_handler
      (start (Loaded [(1, [(''global'', [(3::nat, [(0::nat, 0::nat)])])])])
        (start (Loaded [(1, [(''global'', [(3::nat, [(0::nat, 0::nat)])])])]) CodeRunner)))
     = [(0, 0), (0, 0)]"
  by (simp add: callbacks_for_def start_loaded_callbacks table_registrations_def
      registration_of_def CodeRunner_def add_plugin_def EventHandler_def)

subsection \<open>Stop while not running\<close>

text \<open>
  What stop() does when the running flag is false: only the disconnects are under the test
  of the flag, the compiled table and the registry are emptied on every call. So the call
  changes nothing exactly when both were empty already.
\<close>

lemma stop_not_running_effect:
  assumes "\<not> running s"
  shows "running (stop s) = running s
     \<and> keyboard_event (stop s) = keyboard_event s
     \<and> joystick_event (stop s) = joystick_event s
     \<and> callbacks (event_handler (stop s)) = []
     \<and> callback_registry (stop s) = []
     \<and> (stop s = s \<longleftrightarrow> callbacks (event_handler s) = [] \<and> callback_registry s = [])"
proof -
  have eq: "stop s = s\<lparr>callback_registry := [], event_handler := (event_handler s)\<lparr>callbacks := []\<rparr>\<rparr>"
    using assms by (rule stop_not_running)
  have frame: "running (stop s) = running s \<and> keyboard_event (stop s) = keyboard_event s
     \<and> joystick_event (stop s) = joystick_event s"
    by (simp add: eq)
  have emptied: "callbacks (event_handler (stop s)) = [] \<and> callback_registry (stop s) = []"
    by (simp add: eq)
  have noop: "stop s = s \<longleftrightarrow> callbacks (event_handler s) = [] \<and> callback_registry s = []"
  proof
    assume "stop s = s"
    with emptied show "callbacks (event_handler s) = [] \<and> callback_registry s = []" by simp
  next
    assume e: "callbacks (event_handler s) = [] \<and> callback_registry s = []"
    have "(event_handler s)\<lparr>callbacks := []\<rparr> = event_handler s"
      using e by (cases "event_handler s") simp
    then show "stop s = s" using e by (simp add: eq)
  qed
  from frame emptied noop show ?thesis by blast
qed

text \<open>
  In every state the orchestrator can reach, a false running flag means that nothing is
  registered and the compiled table is empty: callbacks are added only by a start() that
  goes on to set the flag, a start() whose load fails adds none, and stop() empties both.
\<close>

lemma stopped_session_is_empty:
  "session_reachable s \<Longrightarrow> \<not> running s \<Longrightarrow>
     callbacks (event_handler s) = [] \<and> callback_registry s = []"
proof (induction rule: session_reachable.induct)
  case session_init
  show ?case by (simp add: CodeRunner_def add_plugin_def EventHandler_def)
next
  case (session_start s load)
  show ?case
  proof (cases load)
    case (ImportError e)
    with session_start show ?thesis
      by (simp add: start_def Let_def reset_state_def)
  next
    case (Loaded t)
    with session_start.prems show ?thesis
      by (simp add: start_loaded_running)
  qed
next
  case (session_stop s)
  show ?case by (simp add: stop_def Let_def clear_def)
qed

text \<open>
  Claim C3. In every state the orchestrator can reach, stop() while the running flag is
  false is a no-op: the state after the call, with its subscriptions, its compiled table, the
  registry of the Mode-Dispatch Engine and its running flag, is the state before it.
\<close>

theorem stop_not_running_noop:
  assumes "session_reachable s" and "\<not> running s"
  shows "stop s = s"
  using stop_not_running_effect [OF assms(2)] stopped_session_is_empty [OF assms]
  by simp

theorem stop_not_running_noop_witness:
  "session_reachable
     (start (ImportError ''No module named x'') (CodeRunner :: (nat, nat, nat) code_runner))
   \<and> \<not> running
     (start (ImportError ''No module named x'') (CodeRunner :: (nat, nat, nat) code_runner))
   \<and> stop (start (ImportError ''No module named x'') (CodeRunner :: (nat, nat, nat) code_runner))
     = start (ImportError ''No module named x'') CodeRunner
   \<and> displayed_errors
       (stop (start (ImportError ''No module named x'') (CodeRunner :: (nat, nat, nat) code_runner)))
     = [error_message ''No module named x'']"
proof -
  have r: "session_reachable
     (start (ImportError ''No module named x'') (CodeRunner :: (nat, nat, nat) code_runner))"
    by (rule session_start) (rule session_init)
  have n: "\<not> running
     (start (ImportError ''No module named x'') (CodeRunner :: (nat, nat, nat) code_runner))"
    by (simp add: start_def Let_def reset_state_def CodeRunner_def)
  show ?thesis
    using r n stop_not_running_noop [OF r n]
    by (simp add: start_def Let_def reset_state_def CodeRunner_def)
qed

subsection \<open>A load that fails\<close>

text \<open>
  Claim C4. When the compiled table cannot be loaded, start() reports the error (it hands
  the message to \<^verbatim>\<open>util.display_error\<close> and returns) and leaves the session as it was: the
  running flag, the registry of the Mode-Dispatch Engine, the compiled table and the
  subscriptions of both channels are unchanged, so a stopped session stays stopped with
  nothing registered and nothing subscribed.
\<close>

theorem start_load_failure_leaves_session:
  "running (start (ImportError e) s) = running s
   \<and> callbacks (event_handler (start (ImportError e) s)) = callbacks (event_handler s)
   \<and> keyboard_event (start (ImportError e) s) = keyboard_event s
   \<and> joystick_event (start (ImportError e) s) = joystick_event s
   \<and> callback_registry (start (ImportError e) s) = callback_registry s
   \<and> displayed_errors (start (ImportError e) s) = displayed_errors s @ [error_message e]"
  by (simp add: start_def Let_def reset_state_def)

theorem start_load_failure_leaves_session_witness:
  "\<not> running (start (ImportError ''No module named x'') (CodeRunner :: (nat, nat, nat) code_runner))
   \<and> callbacks (event_handler
        (start (ImportError ''No module named x'') (CodeRunner :: (nat, nat, nat) code_runner))) = []
   \<and> keyboard_event
        (start (ImportError ''No module named x'') (CodeRunner :: (nat, nat, nat) code_runner)) = []
   \<and> joystick_event
        (start (ImportError ''No module named x'') (CodeRunner :: (nat, nat, nat) code_runner)) = []
   \<and> length (displayed_errors
        (start (ImportError ''No module named x'') (CodeRunner :: (nat, nat, nat) code_runner))) = 1"
  using start_load_failure_leaves_session
    [of "''No module named x''" "CodeRunner :: (nat, nat, nat) code_runner"]
  by (simp add: CodeRunner_def add_plugin_def EventHandler_def)

subsection \<open>Registration order\<close>

text \<open>
  Claim C9. A successful start() appends to the registry the registrations of the loaded
  table in the order of the table; and for an entry of the table (a dictionary at each of its
  three levels) the callbacks that fire for its key are those that fired before followed by
  the callback list of the entry, in the order of that list.
\<close>

theorem start_registers_in_table_order:
  "callbacks (event_handler (start (Loaded t) s)) = callbacks (event_handler s) @ table_registrations t
   \<and> (is_dict t \<and> map_of t h = Some modes \<and> is_dict modes \<and> map_of modes m = Some cbs
        \<and> is_dict cbs \<and> map_of cbs e = Some cl \<longrightarrow>
      callbacks_for h m e (event_handler (start (Loaded t) s)) =
        callbacks_for h m e (event_handler s) @ cl)"
proof (intro conjI impI)
  show "callbacks (event_handler (start (Loaded t) s)) = callbacks (event_handler s) @ table_registrations t"
    by (rule start_loaded_callbacks)
next
  assume a: "is_dict t \<and> map_of t h = Some modes \<and> is_dict modes \<and> map_of modes m = Some cbs
        \<and> is_dict cbs \<and> map_of cbs e = Some cl"
  then have "filter (has_key h m e) (table_registrations t) = map (registration_of h m e) cl"
    using table_entry_registrations [of t h modes m cbs e cl] by simp
  then show "callbacks_for h m e (event_handler (start (Loaded t) s)) =
        callbacks_for h m e (event_handler s) @ cl"
    by (simp add: callbacks_for_filter start_loaded_callbacks comp_def registration_of_def)
qed

theorem start_registers_in_table_order_witness:
  "is_dict [(1::int, [(''global'', [(3::nat, [(10::nat, 11::nat), (20, 21)])])])]
   \<and> map_of [(1::int, [(''global'', [(3::nat, [(10::nat, 11::nat), (20, 21)])])])] 1
       = Some [(''global'', [(3, [(10, 11), (20, 21)])])]
   \<and> is_dict [(''global'', [(3::nat, [(10::nat, 11::nat), (20, 21)])])]
   \<and> map_of [(''global'', [(3::nat, [(10::nat, 11::nat), (20, 21)])])] ''global''
       = Some [(3, [(10, 11), (20, 21)])]
   \<and> is_dict [(3::nat, [(10::nat, 11::nat), (20, 21)])]
   \<and> map_of [(3::nat, [(10::nat, 11::nat), (20, 21)])] 3 = Some [(10, 11), (20, 21)]
   \<and> callbacks_for 1 ''global'' 3
       (event_handler
         (start (Loaded [(1, [(''global'', [(3::nat, [(10::nat, 11::nat), (20, 21)])])])]) CodeRunner))
     = [(10, 11), (20, 21)]"
  using start_registers_in_table_order
     [of "[(1, [(''global'', [(3::nat, [(10::nat, 11::nat), (20, 21)])])])]" CodeRunner
      1 "[(''global'', [(3::nat, [(10::nat, 11::nat), (20, 21)])])]" "''global''"
      "[(3::nat, [(10::nat, 11::nat), (20, 21)])]" 3 "[(10::nat, 11::nat), (20, 21)]"]
  by (simp add: is_dict_def callbacks_for_def CodeRunner_def add_plugin_def EventHandler_def
      table_registrations_def registration_of_def)

section \<open>Properties of the Replay Engine\<close>

subsection \<open>The methods, case by case\<close>

lemma emit_body_in_range:
  "idx < length (events s) \<Longrightarrow>
     emit_body idx s =
       Inr ((idx + 1) mod length (events s),
            s\<lparr>emitted := emitted s @
               [(if event_type (events s ! 0) = Keyboard then Keyboard_event else Joystick_event,
                 events s ! idx)]\<rparr>)"
  by (auto simp: emit_body_def Let_def)

lemma emit_body_fault:
  "emit_body idx s = Inl IndexError \<longleftrightarrow> events s = [] \<or> length (events s) \<le> idx"
  by (auto simp: emit_body_def Let_def)

lemma set_events_ignored: "is_running s \<or> evs = [] \<Longrightarrow> set_events evs s = s"
  by (auto simp: set_events_def)

lemma set_events_accepted:
  "\<not> is_running s \<Longrightarrow> evs \<noteq> [] \<Longrightarrow>
     set_events evs s =
       s\<lparr>events := evs,
         timers := (timers s)[start_timer s := (timers s ! start_timer s)\<lparr>finished := True\<rparr>]
            @ [\<lparr>interval = 1000, target = Run, timer_started = True, finished = False\<rparr>],
         start_timer := length (timers s)\<rparr>"
  by (simp add: set_events_def Let_def cancel_def timer_start_def Timer_def nth_append)

lemma run_not_alive:
  "\<not> is_alive (thread s) s \<Longrightarrow>
     run s =
       s\<lparr>is_running := True,
         timers := timers s @ [\<lparr>interval = 5000, target = Stop, timer_started = True, finished = False\<rparr>],
         stop_timer := length (timers s),
         threads := threads s @ [\<lparr>worker_started = True, worker_finished = False, index = 0, fault = None\<rparr>],
         thread := length (threads s)\<rparr>"
  by (simp add: run_def Let_def timer_start_def thread_start_def Timer_def Thread_def nth_append)

lemma step_not_running:
  "\<not> is_running s \<Longrightarrow>
     emitted (emit_events_step w s) = emitted s
     \<and> \<not> is_running (emit_events_step w s)
     \<and> \<not> is_alive w (emit_events_step w s)"
  by (simp add: emit_events_step_def is_alive_def)

lemma step_not_alive: "\<not> is_alive w s \<Longrightarrow> emit_events_step w s = s"
  by (simp add: emit_events_step_def)

lemma emit_events_not_alive: "\<not> is_alive w s \<Longrightarrow> emit_events n w s = s"
  by (induction n) (simp_all add: step_not_alive)

lemma emit_events_not_running:
  assumes "\<not> is_running s"
  shows "emitted (emit_events n w s) = emitted s
     \<and> (0 < n \<longrightarrow> \<not> is_alive w (emit_events n w s))"
proof (cases n)
  case 0
  then show ?thesis by simp
next
  case (Suc m)
  have "emit_events (Suc m) w s = emit_events_step w s"
    using step_not_running [OF assms, of w] by (simp add: emit_events_not_alive)
  with Suc step_not_running [OF assms, of w] show ?thesis by simp
qed

lemma fire_stop_timer:
  "pending i s \<Longrightarrow> target (timers s ! i) = Stop \<Longrightarrow> \<not> is_running (fire i s) \<and> \<not> pending i (fire i s)"
  by (simp add: fire_def repeater_stop_def cancel_def pending_def)

lemma emit_events_step_running:
  assumes "is_running s" "is_alive w s" "index (threads s ! w) < length (events s)"
  shows "emit_events_step w s =
     s\<lparr>emitted := emitted s @
          [(if event_type (events s ! 0) = Keyboard then Keyboard_event else Joystick_event,
            events s ! index (threads s ! w))],
       threads := (threads s)[w := (threads s ! w)
          \<lparr>index := (index (threads s ! w) + 1) mod length (events s)\<rparr>]\<rparr>"
  using assms by (simp add: emit_events_step_def emit_body_in_range)

lemma emit_events_cycle_from:
  assumes "is_running s" "is_alive w s" "index (threads s ! w) = k" "k < length (events s)"
  shows "emitted (emit_events n w s) =
     emitted s @ map (\<lambda>j.
       (if event_type (events s ! 0) = Keyboard then Keyboard_event else Joystick_event,
        events s ! ((k + j) mod length (events s)))) [0..<n]
     \<and> events (emit_events n w s) = events s
     \<and> is_running (emit_events n w s)
     \<and> is_alive w (emit_events n w s)
     \<and> index (threads (emit_events n w s) ! w) = (k + n) mod length (events s)"
  using assms
proof (induction n arbitrary: s k)
  case 0
  then show ?case by simp
next
  case (Suc n)
  let ?s' = "emit_events_step w s"
  let ?k' = "(k + 1) mod length (events s)"
  have step: "?s' =
     s\<lparr>emitted := emitted s @
          [(if event_type (events s ! 0) = Keyboard then Keyboard_event else Joystick_event,
            events s ! k)],
       threads := (threads s)[w := (threads s ! w)\<lparr>index := ?k'\<rparr>]\<rparr>"
    using Suc.prems emit_events_step_running [of s w] by simp
  have w: "w < length (threads s)" using Suc.prems(2) by (simp add: is_alive_def)
  have ev: "events ?s' = events s" by (simp add: step)
  have r: "is_running ?s'" using Suc.prems(1) by (simp add: step)
  have a: "is_alive w ?s'" using Suc.prems(2) w by (simp add: step is_alive_def)
  have i: "index (threads ?s' ! w) = ?k'" using w by (simp add: step)
  have pos: "0 < length (events s)" using Suc.prems(4) by (cases "events s") auto
  have "?k' < length (events s)" using pos by (rule mod_less_divisor)
  then have lt: "?k' < length (events ?s')" by (simp only: ev)
  note IH = Suc.IH [OF r a i lt]
  have em: "emitted ?s' = emitted s @
          [(if event_type (events s ! 0) = Keyboard then Keyboard_event else Joystick_event,
            events s ! k)]" by (simp add: step)
  have m1: "(Suc k mod length (events s) + j) mod length (events s) =
      Suc (k + j) mod length (events s)" for j
    using mod_add_left_eq [of "Suc k" "length (events s)" j] by simp
  show ?case
    using IH Suc.prems(4)
    by (simp add: ev em m1 map_upt_Suc del: upt_Suc)
qed

lemma run_alive: "is_alive (thread s) s \<Longrightarrow> run s = s"
  by (simp add: run_def)

lemma one_worker_init: "one_worker (Repeater evs)"
  by (simp add: one_worker_def is_alive_def Repeater_def Thread_def)

lemma one_worker_set_events: "one_worker s \<Longrightarrow> one_worker (set_events evs s)"
  by (simp add: one_worker_def is_alive_def set_events_def Let_def cancel_def timer_start_def)

lemma one_worker_stop: "one_worker s \<Longrightarrow> one_worker (repeater_stop s)"
  by (simp add: one_worker_def is_alive_def repeater_stop_def)

lemma one_worker_cancel: "one_worker s \<Longrightarrow> one_worker (cancel i s)"
  by (simp add: one_worker_def is_alive_def cancel_def)

lemma one_worker_run:
  assumes "one_worker s"
  shows "one_worker (run s)"
proof (cases "is_alive (thread s) s")
  case True
  with assms show ?thesis by (simp add: run_alive)
next
  case False
  with assms have none: "\<not> is_alive w s" for w
    by (auto simp: one_worker_def)
  show ?thesis
    unfolding one_worker_def
  proof (intro allI impI)
    fix w
    assume a: "is_alive w (run s)"
    show "w = thread (run s)"
    proof (cases "w < length (threads s)")
      case True
      with a False have "is_alive w s"
        by (simp add: run_not_alive is_alive_def nth_append)
      with none show ?thesis by simp
    next
      case False
      with a \<open>\<not> is_alive (thread s) s\<close> show ?thesis
        by (simp add: run_not_alive is_alive_def)
    qed
  qed
qed

lemma one_worker_fire: "one_worker s \<Longrightarrow> one_worker (fire i s)"
  by (auto simp: fire_def Let_def one_worker_cancel one_worker_run one_worker_stop
      split: timer_function.splits)

lemma is_alive_step: "is_alive v (emit_events_step w s) \<Longrightarrow> is_alive v s"
  by (auto simp: emit_events_step_def emit_body_def Let_def is_alive_def nth_list_update
      split: if_splits sum.splits prod.splits)

lemma thread_step: "thread (emit_events_step w s) = thread s"
  by (auto simp: emit_events_step_def emit_body_def Let_def split: if_splits sum.splits prod.splits)

lemma one_worker_step: "one_worker s \<Longrightarrow> one_worker (emit_events_step w s)"
  unfolding one_worker_def by (auto simp: thread_step dest: is_alive_step)

lemma reachable_one_worker: "reachable s \<Longrightarrow> one_worker s"
  by (induction rule: reachable.induct)
    (simp_all add: one_worker_init one_worker_set_events one_worker_stop one_worker_run
      one_worker_fire one_worker_step)

lemma active_workers_card:
  "active_workers s = card {w. is_alive w s}"
  unfolding active_workers_def is_alive_def by (simp add: length_filter_conv_card)

lemma one_worker_active: "one_worker s \<Longrightarrow> active_workers s \<le> 1"
proof -
  assume "one_worker s"
  then have "{w. is_alive w s} \<subseteq> {thread s}" by (auto simp: one_worker_def)
  then have "card {w. is_alive w s} \<le> card {thread s}" by (intro card_mono) simp_all
  then show ?thesis by (simp add: active_workers_card)
qed

lemma one_worker_idle: "one_worker s \<Longrightarrow> \<not> is_alive (thread s) s \<Longrightarrow> active_workers s = 0"
proof -
  assume "one_worker s" "\<not> is_alive (thread s) s"
  then have "{w. is_alive w s} = {}" by (auto simp: one_worker_def)
  then show ?thesis by (simp add: active_workers_card)
qed

lemma run_launches_one:
  assumes "one_worker s" "\<not> is_alive (thread s) s"
  shows "active_workers (run s) = 1"
proof -
  from assms have none: "\<not> is_alive w s" for w by (auto simp: one_worker_def)
  have "{w. is_alive w (run s)} = {length (threads s)}"
  proof (rule set_eqI)
    fix w
    show "w \<in> {w. is_alive w (run s)} \<longleftrightarrow> w \<in> {length (threads s)}"
    proof (cases "w < length (threads s)")
      case True
      with none [of w] assms(2) show ?thesis
        by (simp add: run_not_alive is_alive_def nth_append)
    next
      case False
      with assms(2) show ?thesis
        by (auto simp: run_not_alive is_alive_def nth_append)
    qed
  qed
  then show ?thesis by (simp add: active_workers_card)
qed

lemma one_debounce_init: "one_debounce (Repeater evs)"
  by (simp add: one_debounce_def pending_def Repeater_def Timer_def nth_Cons split: nat.splits)

lemma one_debounce_set_events:
  assumes "one_debounce s"
  shows "one_debounce (set_events evs s)"
proof (cases "is_running s \<or> evs = []")
  case True
  with assms show ?thesis by (simp add: set_events_ignored)
next
  case False
  then have eq: "set_events evs s =
       s\<lparr>events := evs,
         timers := (timers s)[start_timer s := (timers s ! start_timer s)\<lparr>finished := True\<rparr>]
            @ [\<lparr>interval = 1000, target = Run, timer_started = True, finished = False\<rparr>],
         start_timer := length (timers s)\<rparr>"
    by (simp add: set_events_accepted)
  show ?thesis
    unfolding one_debounce_def
  proof (intro conjI allI impI)
    show "start_timer (set_events evs s) < length (timers (set_events evs s))"
      by (simp add: eq)
  next
    fix i
    assume a: "pending i (set_events evs s) \<and> target (timers (set_events evs s) ! i) = Run"
    show "i = start_timer (set_events evs s)"
    proof (cases "i < length (timers s)")
      case True
      show ?thesis
      proof (cases "i = start_timer s")
        case True
        with a \<open>i < length (timers s)\<close> show ?thesis
          by (simp add: eq pending_def nth_append)
      next
        case False
        with a True have "pending i s \<and> target (timers s ! i) = Run"
          by (simp add: eq pending_def nth_append)
        with assms False show ?thesis by (simp add: one_debounce_def)
      qed
    next
      case False
      with a show ?thesis by (simp add: eq pending_def)
    qed
  qed
qed

lemma one_debounce_stop: "one_debounce s \<Longrightarrow> one_debounce (repeater_stop s)"
  by (simp add: one_debounce_def pending_def repeater_stop_def)

lemma one_debounce_run:
  assumes "one_debounce s"
  shows "one_debounce (run s)"
proof (cases "is_alive (thread s) s")
  case True
  with assms show ?thesis by (simp add: run_alive)
next
  case False
  show ?thesis
    unfolding one_debounce_def
  proof (intro conjI allI impI)
    show "start_timer (run s) < length (timers (run s))"
      using assms False by (simp add: run_not_alive one_debounce_def)
  next
    fix i
    assume a: "pending i (run s) \<and> target (timers (run s) ! i) = Run"
    then have "i < length (timers s)"
      using False by (cases "i = length (timers s)") (auto simp: run_not_alive pending_def)
    with a False have "pending i s \<and> target (timers s ! i) = Run"
      by (simp add: run_not_alive pending_def nth_append)
    with assms False show "i = start_timer (run s)"
      by (simp add: one_debounce_def run_not_alive)
  qed
qed

lemma pending_cancel:
  "pending j (cancel i s) \<Longrightarrow> pending j s \<and> target (timers (cancel i s) ! j) = target (timers s ! j)"
  by (cases "j = i") (auto simp: pending_def cancel_def)

lemma one_debounce_cancel: "one_debounce s \<Longrightarrow> one_debounce (cancel i s)"
  unfolding one_debounce_def
proof (intro conjI allI impI)
  assume a: "start_timer s < length (timers s)
     \<and> (\<forall>i. pending i s \<and> target (timers s ! i) = Run \<longrightarrow> i = start_timer s)"
  then show "start_timer (cancel i s) < length (timers (cancel i s))"
    by (simp add: cancel_def)
  fix j
  assume "pending j (cancel i s) \<and> target (timers (cancel i s) ! j) = Run"
  then have "pending j s \<and> target (timers s ! j) = Run"
    using pending_cancel [of j i s] by simp
  with a show "j = start_timer (cancel i s)" by (simp add: cancel_def)
qed

lemma one_debounce_fire: "one_debounce s \<Longrightarrow> one_debounce (fire i s)"
  by (auto simp: fire_def Let_def one_debounce_cancel one_debounce_run one_debounce_stop
      split: timer_function.splits)

lemma timers_step: "timers (emit_events_step w s) = timers s"
  by (auto simp: emit_events_step_def emit_body_def Let_def split: if_splits sum.splits prod.splits)

lemma start_timer_step: "start_timer (emit_events_step w s) = start_timer s"
  by (auto simp: emit_events_step_def emit_body_def Let_def split: if_splits sum.splits prod.splits)

lemma one_debounce_step: "one_debounce s \<Longrightarrow> one_debounce (emit_events_step w s)"
  by (simp add: one_debounce_def pending_def timers_step start_timer_step)

lemma reachable_one_debounce: "reachable s \<Longrightarrow> one_debounce s"
  by (induction rule: reachable.induct)
    (simp_all add: one_debounce_init one_debounce_set_events one_debounce_stop one_debounce_run
      one_debounce_fire one_debounce_step)


lemma replay_started:
  "fire 2 (set_events [release_event, press_event] (Repeater [])) =
     \<lparr>is_running = True,
      events = [release_event, press_event],
      thread = 1,
      start_timer = 2,
      stop_timer = 3,
      timers =
        [\<lparr>interval = 1000, target = Run, timer_started = False, finished = True\<rparr>,
         \<lparr>interval = 5000, target = Stop, timer_started = False, finished = False\<rparr>,
         \<lparr>interval = 1000, target = Run, timer_started = True, finished = True\<rparr>,
         \<lparr>interval = 5000, target = Stop, timer_started = True, finished = False\<rparr>],
      threads =
        [\<lparr>worker_started = False, worker_finished = False, index = 0, fault = None\<rparr>,
         \<lparr>worker_started = True, worker_finished = False, index = 0, fault = None\<rparr>],
      emitted = []\<rparr>"
  by (simp add: fire_def pending_def set_events_def run_def Let_def cancel_def timer_start_def
      thread_start_def is_alive_def Repeater_def Timer_def Thread_def)

subsection \<open>Assigning the event list\<close>

text \<open>
  Claim C5. The setter of the event list ignores the assignment when the engine is running
  or the new list is empty: nothing changes, the timers included. Otherwise the new list is
  stored, the debounce timer referred to so far is cancelled (it is no longer pending), and a
  new timer with an interval of 1 time unit (1000 ms) that calls run() is started and
  becomes the debounce timer; every other timer, the auto-stop timer, the threads and the
  running flag stay as they were. In every state the engine can reach, the debounce timer
  referred to exists and no other timer that calls run() is pending, so cancelling it
  cancels any pending debounce timer.
\<close>

theorem set_events_guarded:
  "(is_running s \<or> evs = [] \<longrightarrow> set_events evs s = s)
   \<and> (\<not> is_running s \<and> evs \<noteq> [] \<and> start_timer s < length (timers s) \<longrightarrow>
        events (set_events evs s) = evs
        \<and> \<not> pending (start_timer s) (set_events evs s)
        \<and> start_timer (set_events evs s) = length (timers s)
        \<and> pending (start_timer (set_events evs s)) (set_events evs s)
        \<and> interval (timers (set_events evs s) ! start_timer (set_events evs s)) = 1000
        \<and> target (timers (set_events evs s) ! start_timer (set_events evs s)) = Run
        \<and> (\<forall>i. i \<noteq> start_timer s \<and> i < length (timers s) \<longrightarrow>
              timers (set_events evs s) ! i = timers s ! i)
        \<and> length (timers (set_events evs s)) = Suc (length (timers s))
        \<and> stop_timer (set_events evs s) = stop_timer s
        \<and> is_running (set_events evs s) = is_running s
        \<and> thread (set_events evs s) = thread s
        \<and> threads (set_events evs s) = threads s
        \<and> emitted (set_events evs s) = emitted s)
   \<and> (reachable s \<longrightarrow>
        start_timer s < length (timers s)
        \<and> (\<forall>i. pending i s \<and> target (timers s ! i) = Run \<longrightarrow> i = start_timer s))"
proof (intro conjI)
  show "is_running s \<or> evs = [] \<longrightarrow> set_events evs s = s"
    by (simp add: set_events_ignored)
next
  show "\<not> is_running s \<and> evs \<noteq> [] \<and> start_timer s < length (timers s) \<longrightarrow>
        events (set_events evs s) = evs
        \<and> \<not> pending (start_timer s) (set_events evs s)
        \<and> start_timer (set_events evs s) = length (timers s)
        \<and> pending (start_timer (set_events evs s)) (set_events evs s)
        \<and> interval (timers (set_events evs s) ! start_timer (set_events evs s)) = 1000
        \<and> target (timers (set_events evs s) ! start_timer (set_events evs s)) = Run
        \<and> (\<forall>i. i \<noteq> start_timer s \<and> i < length (timers s) \<longrightarrow>
              timers (set_events evs s) ! i = timers s ! i)
        \<and> length (timers (set_events evs s)) = Suc (length (timers s))
        \<and> stop_timer (set_events evs s) = stop_timer s
        \<and> is_running (set_events evs s) = is_running s
        \<and> thread (set_events evs s) = thread s
        \<and> threads (set_events evs s) = threads s
        \<and> emitted (set_events evs s) = emitted s"
  proof (rule impI)
    assume a: "\<not> is_running s \<and> evs \<noteq> [] \<and> start_timer s < length (timers s)"
    then have eq: "set_events evs s =
         s\<lparr>events := evs,
           timers := (timers s)[start_timer s := (timers s ! start_timer s)\<lparr>finished := True\<rparr>]
              @ [\<lparr>interval = 1000, target = Run, timer_started = True, finished = False\<rparr>],
           start_timer := length (timers s)\<rparr>"
      using set_events_accepted by blast
    show "events (set_events evs s) = evs
        \<and> \<not> pending (start_timer s) (set_events evs s)
        \<and> start_timer (set_events evs s) = length (timers s)
        \<and> pending (start_timer (set_events evs s)) (set_events evs s)
        \<and> interval (timers (set_events evs s) ! start_timer (set_events evs s)) = 1000
        \<and> target (timers (set_events evs s) ! start_timer (set_events evs s)) = Run
        \<and> (\<forall>i. i \<noteq> start_timer s \<and> i < length (timers s) \<longrightarrow>
              timers (set_events evs s) ! i = timers s ! i)
        \<and> length (timers (set_events evs s)) = Suc (length (timers s))
        \<and> stop_timer (set_events evs s) = stop_timer s
        \<and> is_running (set_events evs s) = is_running s
        \<and> thread (set_events evs s) = thread s
        \<and> threads (set_events evs s) = threads s
        \<and> emitted (set_events evs s) = emitted s"
      using a by (simp add: eq pending_def nth_append)
  qed
next
  show "reachable s \<longrightarrow>
        start_timer s < length (timers s)
        \<and> (\<forall>i. pending i s \<and> target (timers s ! i) = Run \<longrightarrow> i = start_timer s)"
    using reachable_one_debounce [of s] by (simp add: one_debounce_def)
qed

theorem set_events_guarded_witness:
  "set_events [] (Repeater [] :: bool repeater) = Repeater []
   \<and> is_running (run (Repeater [] :: bool repeater))
   \<and> set_events [press_event] (run (Repeater [])) = run (Repeater [])
   \<and> \<not> is_running (Repeater [] :: bool repeater)
   \<and> [release_event, press_event] \<noteq> []
   \<and> start_timer (Repeater [] :: bool repeater) < length (timers (Repeater [] :: bool repeater))
   \<and> events (set_events [release_event, press_event] (Repeater [])) = [release_event, press_event]
   \<and> \<not> pending 0 (set_events [release_event, press_event] (Repeater []))
   \<and> start_timer (set_events [release_event, press_event] (Repeater [])) = 2
   \<and> pending 2 (set_events [release_event, press_event] (Repeater []))
   \<and> interval (timers (set_events [release_event, press_event] (Repeater [])) ! 2) = 1000
   \<and> reachable (Repeater [] :: bool repeater)"
  using reachable_init [of "[] :: bool event list"]
    set_events_guarded [of "Repeater [] :: bool repeater" "[]"]
    set_events_guarded [of "run (Repeater [] :: bool repeater)" "[press_event]"]
    set_events_guarded [of "Repeater [] :: bool repeater" "[release_event, press_event]"]
  by (simp add: Repeater_def Timer_def Thread_def run_def Let_def is_alive_def timer_start_def
      thread_start_def set_events_def cancel_def pending_def)

subsection \<open>The cycle of emissions\<close>

text \<open>
  Claim C6. With a non-empty event list, the running flag true and a worker that starts at
  cursor 0, the first \<open>n\<close> trips round the loop emit, for every \<open>n\<close>, the elements at
  positions \<open>0, 1, ...\<close> modulo the length of the list, each on the signal chosen by the type
  of the first element: the keyboard signal for a keyboard event, the joystick signal
  otherwise. For the list of a released and a pressed button the first four emissions are
  released, pressed, released, pressed.
\<close>

theorem emit_events_cycle:
  assumes "events s \<noteq> []" "is_running s" "is_alive w s" "index (threads s ! w) = 0"
  shows "emitted (emit_events n w s) =
     emitted s @ map (\<lambda>j.
       (if event_type (events s ! 0) = Keyboard then Keyboard_event else Joystick_event,
        events s ! (j mod length (events s)))) [0..<n]"
  using emit_events_cycle_from [of s w 0 n] assms by simp

theorem emit_events_cycle_witness:
  "events (fire 2 (set_events [release_event, press_event] (Repeater []))) \<noteq> []
   \<and> is_running (fire 2 (set_events [release_event, press_event] (Repeater [])))
   \<and> is_alive 1 (fire 2 (set_events [release_event, press_event] (Repeater [])))
   \<and> index (threads (fire 2 (set_events [release_event, press_event] (Repeater []))) ! 1) = 0
   \<and> emitted (emit_events 4 1 (fire 2 (set_events [release_event, press_event] (Repeater [])))) =
       [(Joystick_event, release_event), (Joystick_event, press_event),
        (Joystick_event, release_event), (Joystick_event, press_event)]"
proof -
  have upt4: "[0..<4] = [0, 1, 2, 3::nat]"
    by (simp add: upt_rec)
  show ?thesis
    using emit_events_cycle
      [of "fire 2 (set_events [release_event, press_event] (Repeater []))" 1 4]
    unfolding replay_started upt4
    by (simp add: is_alive_def release_event_def press_event_def eval_nat_numeral mod_Suc)
qed

subsection \<open>Clearing the running flag\<close>

text \<open>
  Claim C7. Once the running flag is cleared, by stop() or by a pending auto-stop timer
  firing, the worker emits nothing more however many trips it is given, and is no longer
  alive after the first; and the engine accepts a new non-empty event list. The auto-stop
  timer that run() starts is pending, has an interval of 5 time units (5000 ms) and calls
  stop().
\<close>

theorem cleared_flag_ends_worker:
  "(s1 = repeater_stop s \<or> (pending i s \<and> target (timers s ! i) = Stop \<and> s1 = fire i s) \<longrightarrow>
      \<not> is_running s1
      \<and> emitted (emit_events n w s1) = emitted s1
      \<and> (0 < n \<longrightarrow> \<not> is_alive w (emit_events n w s1))
      \<and> (evs \<noteq> [] \<longrightarrow> events (set_events evs s1) = evs))
   \<and> (\<not> is_alive (thread s0) s0 \<longrightarrow>
        pending (stop_timer (run s0)) (run s0)
        \<and> interval (timers (run s0) ! stop_timer (run s0)) = 5000
        \<and> target (timers (run s0) ! stop_timer (run s0)) = Stop)"
proof (rule conjI; rule impI)
  assume a: "s1 = repeater_stop s \<or> (pending i s \<and> target (timers s ! i) = Stop \<and> s1 = fire i s)"
  have nr: "\<not> is_running s1"
    using a fire_stop_timer [of i s] by (auto simp: repeater_stop_def)
  have acc: "evs \<noteq> [] \<longrightarrow> events (set_events evs s1) = evs"
    using nr by (simp add: set_events_accepted)
  from nr emit_events_not_running [OF nr, of n w] acc
  show "\<not> is_running s1
      \<and> emitted (emit_events n w s1) = emitted s1
      \<and> (0 < n \<longrightarrow> \<not> is_alive w (emit_events n w s1))
      \<and> (evs \<noteq> [] \<longrightarrow> events (set_events evs s1) = evs)"
    by simp
next
  assume "\<not> is_alive (thread s0) s0"
  then show "pending (stop_timer (run s0)) (run s0)
        \<and> interval (timers (run s0) ! stop_timer (run s0)) = 5000
        \<and> target (timers (run s0) ! stop_timer (run s0)) = Stop"
    by (simp add: run_not_alive pending_def)
qed

theorem cleared_flag_ends_worker_witness:
  "pending 3 (fire 2 (set_events [release_event, press_event] (Repeater [])))
   \<and> target (timers (fire 2 (set_events [release_event, press_event] (Repeater []))) ! 3) = Stop
   \<and> \<not> is_running (fire 3 (fire 2 (set_events [release_event, press_event] (Repeater []))))
   \<and> emitted (emit_events 1 1
        (fire 3 (fire 2 (set_events [release_event, press_event] (Repeater []))))) = []
   \<and> \<not> is_alive 1 (emit_events 1 1
        (fire 3 (fire 2 (set_events [release_event, press_event] (Repeater [])))))
   \<and> events (set_events [press_event]
        (fire 3 (fire 2 (set_events [release_event, press_event] (Repeater []))))) = [press_event]
   \<and> \<not> is_running (repeater_stop (fire 2 (set_events [release_event, press_event] (Repeater []))))
   \<and> \<not> is_alive 1 (emit_events 1 1
        (repeater_stop (fire 2 (set_events [release_event, press_event] (Repeater [])))))
   \<and> \<not> is_alive (thread (Repeater [] :: bool repeater)) (Repeater [])
   \<and> interval (timers (run (Repeater [] :: bool repeater)) ! stop_timer (run (Repeater [] :: bool repeater)))
       = 5000"
  using cleared_flag_ends_worker
    [of "fire 3 (fire 2 (set_events [release_event, press_event] (Repeater [])))"
        "fire 2 (set_events [release_event, press_event] (Repeater []))" 3 1 1 "[press_event]"
        "Repeater [] :: bool repeater"]
    cleared_flag_ends_worker
    [of "repeater_stop (fire 2 (set_events [release_event, press_event] (Repeater [])))"
        "fire 2 (set_events [release_event, press_event] (Repeater []))" 3 1 1 "[press_event]"
        "Repeater [] :: bool repeater"]
  unfolding replay_started
  by (simp add: pending_def fire_def repeater_stop_def cancel_def is_alive_def
      Repeater_def Thread_def)

subsection \<open>At most one worker\<close>

text \<open>
  Claim C8. run() does nothing while the worker thread is alive; otherwise it sets the
  running flag, starts a new auto-stop timer of 5 time units (5000 ms) that calls stop(), and
  starts one new worker thread at cursor 0. In every state the engine can reach at most one
  worker thread is alive, and a run() that finds none alive leaves exactly one.
\<close>

theorem run_single_worker:
  "(is_alive (thread s) s \<longrightarrow> run s = s)
   \<and> (\<not> is_alive (thread s) s \<longrightarrow>
        is_running (run s)
        \<and> timers (run s) = timers s @
            [\<lparr>interval = 5000, target = Stop, timer_started = True, finished = False\<rparr>]
        \<and> stop_timer (run s) = length (timers s)
        \<and> pending (stop_timer (run s)) (run s)
        \<and> threads (run s) = threads s @
            [\<lparr>worker_started = True, worker_finished = False, index = 0, fault = None\<rparr>]
        \<and> thread (run s) = length (threads s)
        \<and> is_alive (thread (run s)) (run s)
        \<and> events (run s) = events s
        \<and> start_timer (run s) = start_timer s
        \<and> emitted (run s) = emitted s)
   \<and> (reachable s \<longrightarrow>
        active_workers s \<le> 1
        \<and> (\<not> is_alive (thread s) s \<longrightarrow> active_workers s = 0 \<and> active_workers (run s) = 1))"
proof (intro conjI)
  show "is_alive (thread s) s \<longrightarrow> run s = s" by (simp add: run_alive)
next
  show "\<not> is_alive (thread s) s \<longrightarrow>
        is_running (run s)
        \<and> timers (run s) = timers s @
            [\<lparr>interval = 5000, target = Stop, timer_started = True, finished = False\<rparr>]
        \<and> stop_timer (run s) = length (timers s)
        \<and> pending (stop_timer (run s)) (run s)
        \<and> threads (run s) = threads s @
            [\<lparr>worker_started = True, worker_finished = False, index = 0, fault = None\<rparr>]
        \<and> thread (run s) = length (threads s)
        \<and> is_alive (thread (run s)) (run s)
        \<and> events (run s) = events s
        \<and> start_timer (run s) = start_timer s
        \<and> emitted (run s) = emitted s"
    by (simp add: run_not_alive pending_def is_alive_def)
next
  show "reachable s \<longrightarrow>
        active_workers s \<le> 1
        \<and> (\<not> is_alive (thread s) s \<longrightarrow> active_workers s = 0 \<and> active_workers (run s) = 1)"
    using reachable_one_worker [of s] one_worker_active [of s] one_worker_idle [of s]
      run_launches_one [of s]
    by blast
qed

theorem run_single_worker_witness:
  "\<not> is_alive (thread (Repeater [press_event])) (Repeater [press_event])
   \<and> reachable (Repeater [press_event])
   \<and> active_workers (Repeater [press_event]) = 0
   \<and> active_workers (run (Repeater [press_event])) = 1
   \<and> is_running (run (Repeater [press_event]))
   \<and> pending (stop_timer (run (Repeater [press_event]))) (run (Repeater [press_event]))
   \<and> is_alive (thread (run (Repeater [press_event]))) (run (Repeater [press_event]))
   \<and> reachable (run (Repeater [press_event]))
   \<and> run (run (Repeater [press_event])) = run (Repeater [press_event])"
  using run_single_worker [of "Repeater [press_event]"]
    run_single_worker [of "run (Repeater [press_event])"]
    reachable_init [of "[press_event]"]
    reachable_run [OF reachable_init [of "[press_event]"]]
  by (simp add: Repeater_def is_alive_def Thread_def Timer_def run_def Let_def timer_start_def
      thread_start_def pending_def active_workers_def)

subsection \<open>The empty event list\<close>

text \<open>
  Claim C10. The constructor stores an empty event list as it is, and the application
  constructs its replay engine with one. The body of the worker loop raises
  \<^verbatim>\<open>IndexError\<close> exactly when the list is empty or the cursor is beyond its end; on a
  non-empty list with the cursor in range it emits and leaves the cursor in range. The setter
  never stores an empty list. A worker started on the application's new engine faults on its
  first trip, emitting nothing.
\<close>

theorem empty_list_faults:
  "events (Repeater []) = []
   \<and> events GremlinUi_repeater = []
   \<and> (emit_body idx s = Inl IndexError \<longleftrightarrow> events s = [] \<or> length (events s) \<le> idx)
   \<and> (events s \<noteq> [] \<and> idx < length (events s) \<longrightarrow>
        emit_body idx s =
          Inr ((idx + 1) mod length (events s),
               s\<lparr>emitted := emitted s @
                  [(if event_type (events s ! 0) = Keyboard then Keyboard_event else Joystick_event,
                    events s ! idx)]\<rparr>)
        \<and> (idx + 1) mod length (events s) < length (events s))
   \<and> (events (set_events evs s) = [] \<longrightarrow> events s = [])
   \<and> fault (threads (emit_events_step 1 (run GremlinUi_repeater)) ! 1) = Some IndexError
   \<and> emitted (emit_events_step 1 (run GremlinUi_repeater)) = []
   \<and> \<not> is_alive 1 (emit_events_step 1 (run GremlinUi_repeater))"
proof (intro conjI)
  show "events (Repeater []) = []" by (simp add: Repeater_def)
  show "events GremlinUi_repeater = []" by (simp add: GremlinUi_repeater_def Repeater_def)
  show "emit_body idx s = Inl IndexError \<longleftrightarrow> events s = [] \<or> length (events s) \<le> idx"
    by (rule emit_body_fault)
  show "events s \<noteq> [] \<and> idx < length (events s) \<longrightarrow>
        emit_body idx s =
          Inr ((idx + 1) mod length (events s),
               s\<lparr>emitted := emitted s @
                  [(if event_type (events s ! 0) = Keyboard then Keyboard_event else Joystick_event,
                    events s ! idx)]\<rparr>)
        \<and> (idx + 1) mod length (events s) < length (events s)"
    using emit_body_in_range [of idx s] by (auto simp del: One_nat_def)
  show "events (set_events evs s) = [] \<longrightarrow> events s = []"
    by (cases "is_running s \<or> evs = []") (auto simp: set_events_ignored set_events_accepted)
  show "fault (threads (emit_events_step 1 (run GremlinUi_repeater)) ! 1) = Some IndexError"
    by (simp add: GremlinUi_repeater_def Repeater_def run_def Let_def is_alive_def Thread_def
        Timer_def timer_start_def thread_start_def emit_events_step_def emit_body_def)
  show "emitted (emit_events_step 1 (run GremlinUi_repeater)) = []"
    by (simp add: GremlinUi_repeater_def Repeater_def run_def Let_def is_alive_def Thread_def
        Timer_def timer_start_def thread_start_def emit_events_step_def emit_body_def)
  show "\<not> is_alive 1 (emit_events_step 1 (run GremlinUi_repeater))"
    by (simp add: GremlinUi_repeater_def Repeater_def run_def Let_def is_alive_def Thread_def
        Timer_def timer_start_def thread_start_def emit_events_step_def emit_body_def)
qed

theorem empty_list_faults_witness:
  "emit_body 0 (Repeater [] :: bool repeater) = Inl IndexError
   \<and> emit_body 2 (Repeater [release_event, press_event]) = Inl IndexError
   \<and> events (Repeater [release_event, press_event]) \<noteq> []
   \<and> (1::nat) < length (events (Repeater [release_event, press_event]))
   \<and> emit_body 1 (Repeater [release_event, press_event]) =
        Inr (0, (Repeater [release_event, press_event])\<lparr>emitted := [(Joystick_event, press_event)]\<rparr>)
   \<and> events (set_events [] (Repeater [] :: bool repeater)) = []
   \<and> events (Repeater [] :: bool repeater) = []"
  using empty_list_faults [of 0 "Repeater [] :: bool repeater" "[]"]
    empty_list_faults [of 2 "Repeater [release_event, press_event]" "[]"]
    empty_list_faults [of 1 "Repeater [release_event, press_event]" "[]"]
  by (simp add: Repeater_def release_event_def press_event_def emit_body_def Let_def
      set_events_def)

end
